theory Spec2Isabelle
  imports Main "HOL-Library.Word"
begin

section \<open>The interview session component\<close>

text \<open>
  A shallow embedding of \<^verbatim>\<open>src/frontend/src/components/InterviewSession.jsx\<close>
  (the component \<^verbatim>\<open>App\<close> mounts, lines 1 to 360 of the file). The component is a
  set of callbacks run one at a time by the browser's event loop; each callback is a
  function from the component's state to its state. An \<^verbatim>\<open>async\<close> function is cut
  at its \<^verbatim>\<open>await\<close>s: the part before the first \<^verbatim>\<open>await\<close> is one function, and what
  runs when the awaited promise settles is another, called with the values the closure
  had captured. A \<^verbatim>\<open>setState\<close> call is the assignment of the new value: no callback
  of the component reads React state except the updater of \<^verbatim>\<open>setTimer\<close>, which React
  runs on the latest value. The component stays mounted, and the only exception is a
  rejection of \<^verbatim>\<open>submitAnswer\<close>. The state \<^verbatim>\<open>speechSupported\<close> only selects what is
  rendered and is left out.
\<close>

subsection \<open>Strings\<close>

text \<open>A JavaScript string is a sequence of UTF-16 code units.\<close>

type_synonym jsstring = "16 word list"

definition js :: "string \<Rightarrow> jsstring" where
  "js cs = map of_char cs"

text \<open>
  \<^verbatim>\<open>String.prototype.trim\<close> strips white space and line terminators of ECMAScript
  (TAB, VT, FF, SP, NBSP, ZWNBSP, the category Zs, LF, CR, LS, PS) from both ends.
\<close>

definition isWhiteSpace :: "16 word \<Rightarrow> bool" where
  "isWhiteSpace c \<longleftrightarrow>
     c = 0x9 \<or> c = 0xA \<or> c = 0xB \<or> c = 0xC \<or> c = 0xD \<or> c = 0x20 \<or> c = 0xA0 \<or>
     c = 0x1680 \<or> (0x2000 \<le> c \<and> c \<le> 0x200A) \<or> c = 0x2028 \<or> c = 0x2029 \<or>
     c = 0x202F \<or> c = 0x205F \<or> c = 0x3000 \<or> c = 0xFEFF"

definition trim :: "jsstring \<Rightarrow> jsstring" where
  "trim s = rev (dropWhile isWhiteSpace (rev (dropWhile isWhiteSpace s)))"

subsection \<open>Constants\<close>

definition TOTAL_QUESTIONS :: int where
  "TOTAL_QUESTIONS = 5"

definition MAX_RECORD_SECONDS :: int where
  "MAX_RECORD_SECONDS = 120"

definition SILENCE_TIMEOUT_MS :: nat where
  "SILENCE_TIMEOUT_MS = 12000"

subsection \<open>Data\<close>

text \<open>A list without its entry at index \<open>i\<close>: a pending promise or utterance leaves the
  list when it settles.\<close>

definition dropAt :: "nat \<Rightarrow> 'a list \<Rightarrow> 'a list" where
  "dropAt i xs = take i xs @ drop (Suc i) xs"

datatype status = Speaking | Recording | Processing | Idle

text \<open>
  A \<^verbatim>\<open>SpeechRecognition\<close> object. \<open>eid\<close> tells the objects apart (each \<^verbatim>\<open>new\<close>
  takes the next number). A handler is a closure of one call of \<^verbatim>\<open>startListeningFn\<close>;
  it is named by the \<open>eid\<close> of the object that call constructed.
\<close>

record engine =
  eid :: nat
  continuous :: bool
  interimResults :: bool
  lang :: jsstring
  onresult :: nat
  onerror :: nat
  onend :: nat
  started :: bool

text \<open>
  The event of \<^verbatim>\<open>onresult\<close>: \<^verbatim>\<open>event.resultIndex\<close> and, for each entry of
  \<^verbatim>\<open>event.results\<close>, its \<^verbatim>\<open>isFinal\<close> and the \<^verbatim>\<open>transcript\<close> of its first alternative.
\<close>

record sr_event =
  resultIndex :: nat
  results :: "(bool \<times> jsstring) list"

text \<open>
  The argument of \<^verbatim>\<open>submitAnswer\<close>, and what it resolves to. A report is an opaque
  payload; \<open>final_report\<close> is \<open>None\<close> where the response has no such field. The
  count is an integer (the source adds 1 to it as a double, which is exact below
  \<open>2 ^ 53\<close>).
\<close>

record request =
  session_id :: jsstring
  current_question :: jsstring
  current_answer :: jsstring
  previous_questions :: "jsstring list"
  previous_answers :: "jsstring list"

type_synonym report = jsstring

record response =
  final_report :: "report option"
  next_question :: jsstring
  question_count :: int

text \<open>
  The test \<^verbatim>\<open>if (data.final_report)\<close> is one of truthiness: an absent report and the
  empty payload are both falsy.
\<close>

definition reportOf :: "response \<Rightarrow> report option" where
  "reportOf data =
     (case final_report data of
        None \<Rightarrow> None
      | Some r \<Rightarrow> if r = [] then None else Some r)"

text \<open>What a caller of \<^verbatim>\<open>speakQuestion\<close> does once the returned promise resolves.\<close>

datatype cont = ThenListen | ThenComplete report

text \<open>
  The state: the component's props, its React state, its refs, the variables of the
  running \<^verbatim>\<open>startListeningFn\<close> closure, and the environment (browser capabilities,
  pending timeouts, promises not yet settled, calls of \<^verbatim>\<open>onComplete\<close>).
  A timer ref holds the delay its live timer was armed with.
\<close>

record state =
  sessionId :: jsstring
  currentQuestion :: jsstring
  questionNumber :: int
  transcript :: jsstring
  isRecording :: bool
  isSpeaking :: bool
  status :: status
  error :: jsstring
  timer :: int
  recognitionRef :: "engine option"
  timerIntervalRef :: "nat option"
  silenceTimeoutRef :: "nat option"
  transcriptRef :: jsstring
  isSubmittingRef :: bool
  shouldListenRef :: bool
  currentQuestionRef :: jsstring
  previousQuestionsRef :: "jsstring list"
  previousAnswersRef :: "jsstring list"
  questionNumberRef :: int
  recognition :: "engine option"
  finalTranscript :: jsstring
  hasSpeechRecognition :: bool
  hasSpeechSynthesis :: bool
  synthSpeaking :: bool
  nextEngine :: nat
  submitted :: "request list"
  restarts :: "nat list"
  utterances :: "(jsstring \<times> cont) list"
  completed :: "report list"

text \<open>The state of a freshly mounted component (the \<^verbatim>\<open>useState\<close> and \<^verbatim>\<open>useRef\<close> initial values).\<close>

definition mounted :: "jsstring \<Rightarrow> jsstring \<Rightarrow> bool \<Rightarrow> bool \<Rightarrow> state" where
  "mounted sid firstQuestion sr synth =
     \<lparr> sessionId = sid, currentQuestion = firstQuestion, questionNumber = 1,
       transcript = [], isRecording = False, isSpeaking = False, status = Speaking,
       error = [], timer = MAX_RECORD_SECONDS,
       recognitionRef = None, timerIntervalRef = None, silenceTimeoutRef = None,
       transcriptRef = [], isSubmittingRef = False, shouldListenRef = False,
       currentQuestionRef = firstQuestion, previousQuestionsRef = [],
       previousAnswersRef = [], questionNumberRef = 1,
       recognition = None, finalTranscript = [],
       hasSpeechRecognition = sr, hasSpeechSynthesis = synth, synthSpeaking = False,
       nextEngine = 0, submitted = [], restarts = [], utterances = [], completed = [] \<rparr>"

subsection \<open>Releasing the recording resources\<close>

text \<open>
  \<^verbatim>\<open>cleanupRecording\<close> aborts the engine the ref holds (the engine leaves the state; an
  error of \<^verbatim>\<open>abort()\<close> is ignored by the source) and clears the interval and the
  timeout.
\<close>

definition cleanupRecording :: "state \<Rightarrow> state" where
  "cleanupRecording s =
     s\<lparr> shouldListenRef := False, recognitionRef := None, timerIntervalRef := None,
        silenceTimeoutRef := None, isRecording := False \<rparr>"

subsection \<open>The silence timer and the recognition handlers\<close>

text \<open>\<^verbatim>\<open>resetSilenceTimer\<close> clears the live timeout, if any, and arms a new one.\<close>

definition resetSilenceTimer :: "state \<Rightarrow> state" where
  "resetSilenceTimer s = s\<lparr> silenceTimeoutRef := Some SILENCE_TIMEOUT_MS \<rparr>"

text \<open>
  The loop of \<^verbatim>\<open>onresult\<close> over the entries from \<^verbatim>\<open>resultIndex\<close> on: the pair is
  (\<^verbatim>\<open>finalTranscript\<close>, \<^verbatim>\<open>interim\<close>).
\<close>

fun collect :: "(bool \<times> jsstring) list \<Rightarrow> jsstring \<times> jsstring \<Rightarrow> jsstring \<times> jsstring" where
  "collect [] acc = acc"
| "collect ((isFinal, t) # rs) (fin, interim) =
     (if isFinal then collect rs (fin @ t @ js '' '', interim)
      else collect rs (fin, interim @ t))"

definition recognition_onresult :: "sr_event \<Rightarrow> state \<Rightarrow> state" where
  "recognition_onresult ev s =
     (let (fin, interim) = collect (drop (resultIndex ev) (results ev)) (finalTranscript s, []);
          full = fin @ interim
      in resetSilenceTimer (s\<lparr> finalTranscript := fin, transcriptRef := full, transcript := full \<rparr>))"

definition recognition_onerror :: "jsstring \<Rightarrow> state \<Rightarrow> state" where
  "recognition_onerror e s =
     (if e \<noteq> js ''aborted'' \<and> e \<noteq> js ''no-speech''
      then s\<lparr> error := js ''Speech error: '' @ e \<rparr> else s)"

text \<open>
  \<^verbatim>\<open>onend\<close>: when the component still wants input, a new object is constructed, takes
  the handlers of the closure's \<^verbatim>\<open>recognition\<close>, is stored in the ref and started.
  A newly constructed object accepts \<^verbatim>\<open>start()\<close>, so the \<^verbatim>\<open>catch\<close> is not taken.
\<close>

definition recognition_onend :: "state \<Rightarrow> state" where
  "recognition_onend s =
     (case recognition s of
        None \<Rightarrow> s
      | Some r \<Rightarrow>
          if shouldListenRef s \<and> \<not> isSubmittingRef s then
            let fresh = \<lparr> eid = nextEngine s, continuous = True, interimResults = True,
                          lang = js ''en-US'', onresult = onresult r, onerror = onerror r,
                          onend = onend r, started = True \<rparr>
            in s\<lparr> nextEngine := Suc (nextEngine s), recognitionRef := Some fresh \<rparr>
          else s)"

subsection \<open>Starting to listen\<close>

definition startListeningFn :: "state \<Rightarrow> state" where
  "startListeningFn s =
     (if \<not> hasSpeechRecognition s
      then s\<lparr> error := js ''Speech recognition not supported. Please use Chrome.'' \<rparr>
      else
        let s1 = cleanupRecording s;
            s2 = s1\<lparr> transcript := [], transcriptRef := [], error := [],
                     timer := MAX_RECORD_SECONDS, isSubmittingRef := False,
                     shouldListenRef := True \<rparr>;
            n = nextEngine s2;
            r = \<lparr> eid = n, continuous = True, interimResults = True, lang = js ''en-US'',
                  onresult = n, onerror = n, onend = n, started = True \<rparr>;
            s3 = s2\<lparr> nextEngine := Suc n, recognition := Some r, finalTranscript := [],
                     recognitionRef := Some r, isRecording := True, status := Recording \<rparr>
        in (resetSilenceTimer s3)\<lparr> timerIntervalRef := Some 1000 \<rparr>)"

subsection \<open>Speaking\<close>

text \<open>
  \<^verbatim>\<open>speakQuestion\<close> resolves at once where the browser has no speech synthesis;
  otherwise the utterance is handed to the synthesiser and the promise resolves in the
  utterance's \<^verbatim>\<open>onend\<close> or \<^verbatim>\<open>onerror\<close>, which have the same body. The
  \<^verbatim>\<open>cancel()\<close> before it makes the synthesiser end the utterances it still holds;
  their handlers run as events of their own. \<open>synthSpeaking\<close> is the synthesiser's
  \<^verbatim>\<open>speaking\<close> property, which the environment sets.
\<close>

definition resume :: "cont \<Rightarrow> state \<Rightarrow> state" where
  "resume k s =
     (case k of
        ThenListen \<Rightarrow> startListeningFn s
      | ThenComplete r \<Rightarrow> s\<lparr> completed := completed s @ [r], isSubmittingRef := False \<rparr>)"

definition speakQuestion :: "jsstring \<Rightarrow> cont \<Rightarrow> state \<Rightarrow> state" where
  "speakQuestion text k s =
     (if \<not> hasSpeechSynthesis s then resume k s
      else s\<lparr> utterances := utterances s @ [(text, k)] \<rparr>)"

definition utterance_onstart :: "state \<Rightarrow> state" where
  "utterance_onstart s = s\<lparr> isSpeaking := True \<rparr>"

definition utterance_onend :: "nat \<Rightarrow> state \<Rightarrow> state" where
  "utterance_onend i s =
     (if i < length (utterances s)
      then resume (snd (utterances s ! i))
             (s\<lparr> utterances := dropAt i (utterances s),
                 isSpeaking := False \<rparr>)
      else s)"

subsection \<open>Submitting\<close>

definition noSpeech :: jsstring where
  "noSpeech = js ''No speech detected. Listening again'' @ [0x2026]"

text \<open>\<^verbatim>\<open>doSubmit\<close> up to its first \<^verbatim>\<open>await\<close>, the call of \<^verbatim>\<open>submitAnswer\<close>.\<close>

definition doSubmit :: "state \<Rightarrow> state" where
  "doSubmit s =
     (if isSubmittingRef s then s
      else
        let answer = trim (transcriptRef s) in
        if answer = [] then
          (cleanupRecording (s\<lparr> error := noSpeech \<rparr>))\<lparr> restarts := restarts s @ [2000] \<rparr>
        else
          let s1 = cleanupRecording (s\<lparr> isSubmittingRef := True \<rparr>);
              s2 = s1\<lparr> status := Processing, error := [] \<rparr>;
              q = currentQuestionRef s2;
              prevQ = previousQuestionsRef s2;
              prevA = previousAnswersRef s2
          in s2\<lparr> submitted := submitted s2 @
                   [\<lparr> session_id = sessionId s2, current_question = q,
                      current_answer = answer, previous_questions = prevQ,
                      previous_answers = prevA \<rparr>] \<rparr>)"

text \<open>The callback of the timeout that \<^verbatim>\<open>doSubmit\<close> sets when nothing was said.\<close>

definition restartListening :: "state \<Rightarrow> state" where
  "restartListening s = startListeningFn (s\<lparr> error := [] \<rparr>)"

text \<open>
  \<^verbatim>\<open>doSubmit\<close> after \<^verbatim>\<open>submitAnswer\<close> has resolved to \<open>data\<close>; \<open>req\<close> holds the
  closure's \<^verbatim>\<open>q\<close>, \<^verbatim>\<open>answer\<close>, \<^verbatim>\<open>prevQ\<close> and \<^verbatim>\<open>prevA\<close>.
\<close>

definition submitResolved :: "response \<Rightarrow> request \<Rightarrow> state \<Rightarrow> state" where
  "submitResolved data req s =
     (case reportOf data of
        Some r \<Rightarrow>
          speakQuestion (js ''Great job! Your interview is complete. Here are your results.'')
            (ThenComplete r) s
      | None \<Rightarrow>
          let nextQ = next_question data;
              newQNum = question_count data + 1;
              s1 = s\<lparr> previousQuestionsRef := previous_questions req @ [current_question req],
                       previousAnswersRef := previous_answers req @ [current_answer req],
                       currentQuestionRef := nextQ, questionNumberRef := newQNum,
                       currentQuestion := nextQ, questionNumber := newQNum,
                       transcript := [], transcriptRef := [], isSubmittingRef := False,
                       status := Speaking \<rparr>
          in speakQuestion nextQ ThenListen s1)"

text \<open>The \<^verbatim>\<open>catch\<close> of \<^verbatim>\<open>doSubmit\<close>, for a rejection whose \<^verbatim>\<open>err.message\<close> is \<open>m\<close>.\<close>

definition submitRejected :: "jsstring option \<Rightarrow> state \<Rightarrow> state" where
  "submitRejected m s =
     s\<lparr> error := (case m of
                     None \<Rightarrow> js ''Something went wrong. Please try again.''
                   | Some t \<Rightarrow> if t = [] then js ''Something went wrong. Please try again.''
                               else t),
        status := Idle, isSubmittingRef := False \<rparr>"

subsection \<open>The callers of \<^verbatim>\<open>doSubmit\<close>\<close>

definition silenceTimeout :: "state \<Rightarrow> state" where
  "silenceTimeout s =
     (if hasSpeechSynthesis s \<and> synthSpeaking s then resetSilenceTimer s
      else if \<not> isSubmittingRef s \<and> shouldListenRef s then doSubmit s
      else s)"

text \<open>The interval's callback: the updater passed to \<^verbatim>\<open>setTimer\<close>, run on the current \<open>timer\<close>.\<close>

definition intervalTick :: "state \<Rightarrow> state" where
  "intervalTick s =
     (if timer s \<le> 1
      then (if \<not> isSubmittingRef s then doSubmit s else s)\<lparr> timer := 0 \<rparr>
      else s\<lparr> timer := timer s - 1 \<rparr>)"

definition handleDoneClick :: "state \<Rightarrow> state" where
  "handleDoneClick s = (if \<not> isSubmittingRef s then doSubmit s else s)"

text \<open>The mount effect, after its delay of 500 ms.\<close>

definition init :: "jsstring \<Rightarrow> state \<Rightarrow> state" where
  "init firstQuestion s = speakQuestion firstQuestion ThenListen (s\<lparr> status := Speaking \<rparr>)"

subsection \<open>The event loop\<close>

text \<open>
  One event runs one callback. A callback runs only where the browser can call it: a
  timer's while the timer is live, the button's while the button is rendered
  (\<open>status = Recording\<close>), a recognition handler while a closure of \<^verbatim>\<open>startListeningFn\<close>
  exists, a promise's continuation while the promise is pending.
\<close>

datatype event =
    DoneClick
  | SilenceTimerFires
  | IntervalFires
  | Result sr_event
  | EngineError jsstring
  | EngineEnds
  | RestartFires
  | Resolves nat response
  | Rejects nat "jsstring option"
  | UtteranceStarts
  | UtteranceEnds nat
  | SynthSpeaking bool

fun fire :: "event \<Rightarrow> state \<Rightarrow> state" where
  "fire DoneClick s = (if status s = Recording then handleDoneClick s else s)"
| "fire SilenceTimerFires s = (if silenceTimeoutRef s \<noteq> None then silenceTimeout s else s)"
| "fire IntervalFires s = (if timerIntervalRef s \<noteq> None then intervalTick s else s)"
| "fire (Result ev) s = (if recognitionRef s \<noteq> None then recognition_onresult ev s else s)"
| "fire (EngineError e) s = (if recognition s \<noteq> None then recognition_onerror e s else s)"
| "fire EngineEnds s = recognition_onend s"
| "fire RestartFires s =
     (case restarts s of [] \<Rightarrow> s | d # ds \<Rightarrow> restartListening (s\<lparr> restarts := ds \<rparr>))"
| "fire (Resolves i data) s =
     (if i < length (submitted s)
      then submitResolved data (submitted s ! i) (s\<lparr> submitted := dropAt i (submitted s) \<rparr>)
      else s)"
| "fire (Rejects i m) s =
     (if i < length (submitted s)
      then submitRejected m (s\<lparr> submitted := dropAt i (submitted s) \<rparr>)
      else s)"
| "fire UtteranceStarts s = (if utterances s \<noteq> [] then utterance_onstart s else s)"
| "fire (UtteranceEnds i) s = utterance_onend i s"
| "fire (SynthSpeaking b) s = s\<lparr> synthSpeaking := b \<rparr>"

fun run :: "event list \<Rightarrow> state \<Rightarrow> state" where
  "run [] s = s"
| "run (e # es) s = run es (fire e s)"

subsection \<open>Auxiliary definitions for the properties\<close>

text \<open>Every engine the component holds was numbered before \<open>nextEngine\<close>.\<close>

fun below :: "nat \<Rightarrow> engine option \<Rightarrow> bool" where
  "below n None = True"
| "below n (Some e) = (eid e < n)"

definition ids_below :: "state \<Rightarrow> bool" where
  "ids_below s \<longleftrightarrow>
     below (nextEngine s) (recognitionRef s) \<and> below (nextEngine s) (recognition s)"

text \<open>A component that has just started to listen for its first answer.\<close>

definition listening0 :: state where
  "listening0 = startListeningFn (mounted (js ''s1'') (js ''Q1'') True True)"

text \<open>The first answer: one final result \<open>hi\<close>, then the button.\<close>

definition said_hi :: sr_event where
  "said_hi = \<lparr> resultIndex = 0, results = [(True, js ''hi'')] \<rparr>"

definition answered0 :: state where
  "answered0 = fire DoneClick (fire (Result said_hi) listening0)"

text \<open>A final result with an empty transcript leaves a transcript of one space.\<close>

definition blank0 :: state where
  "blank0 = fire (Result \<lparr> resultIndex = 0, results = [(True, [])] \<rparr>) listening0"

text \<open>
  The running transcript as the specification words it: the finalised fragments of all
  events, in arrival order, each followed by one space, then the interim fragments of
  the latest event. The fragments an event delivers are its results from
  \<^verbatim>\<open>resultIndex\<close> on.
\<close>

definition finals :: "sr_event \<Rightarrow> jsstring list" where
  "finals ev = map snd (filter fst (drop (resultIndex ev) (results ev)))"

definition interims :: "sr_event \<Rightarrow> jsstring list" where
  "interims ev = map snd (filter (\<lambda>r. \<not> fst r) (drop (resultIndex ev) (results ev)))"

definition running_transcript :: "sr_event list \<Rightarrow> jsstring" where
  "running_transcript evs =
     concat (map (\<lambda>t. t @ js '' '') (concat (map finals evs)))
     @ (if evs = [] then [] else concat (interims (last evs)))"

text \<open>
  A listening phase is over when the capture handle is released, both timers are
  cleared and \<open>shouldListenRef\<close> is reset. The events within a listening phase are
  those that do not call \<^verbatim>\<open>startListeningFn\<close>. The countdown runs while no submission
  is in flight, the interval is live and the counter is positive.
\<close>

definition ended :: "state \<Rightarrow> bool" where
  "ended s \<longleftrightarrow>
     recognitionRef s = None \<and> timerIntervalRef s = None \<and> silenceTimeoutRef s = None
     \<and> \<not> shouldListenRef s"

fun within_phase :: "event \<Rightarrow> bool" where
  "within_phase RestartFires = False"
| "within_phase (Resolves i data) = False"
| "within_phase (Rejects i m) = False"
| "within_phase (UtteranceEnds i) = False"
| "within_phase e = True"

definition counting :: "state \<Rightarrow> bool" where
  "counting s \<longleftrightarrow> \<not> isSubmittingRef s \<and> timerIntervalRef s \<noteq> None \<and> 1 \<le> timer s"

text \<open>Four deliveries of a recogniser: two interim guesses, a final result, a new interim one.\<close>

definition heard :: "sr_event list" where
  "heard =
     [\<lparr> resultIndex = 0, results = [(False, js ''I'')] \<rparr>,
      \<lparr> resultIndex = 0, results = [(False, js ''I think'')] \<rparr>,
      \<lparr> resultIndex = 0, results = [(True, js ''I think'')] \<rparr>,
      \<lparr> resultIndex = 1, results = [(True, js ''I think''), (False, js ''so'')] \<rparr>]"

text \<open>Two seconds before the ceiling, with a synthesiser that reports speaking throughout.\<close>

definition late0 :: state where
  "late0 = listening0\<lparr> synthSpeaking := True, timer := 2 \<rparr>"

definition lastSeconds :: "event list" where
  "lastSeconds = [SilenceTimerFires, IntervalFires, Result said_hi, SilenceTimerFires, IntervalFires]"

text \<open>
  Modelled from the spec: the scoring and question-generation service that
  \<^verbatim>\<open>submitAnswer\<close> calls; its code is not among the sources. The specification
  (section 6) has the request carry the ordered histories of all prior questions and
  answers and the response be either a next question with a question count or a final
  report, and (section 1) has the loop repeat until a fixed number of turns completes.
  So the request that completes turn \<open>n\<close> (its history holds \<open>n - 1\<close> answers) is
  answered with the final report when \<open>n\<close> reaches the fixed total, and otherwise with
  the next question and the count \<open>n\<close> (the component numbers the next turn
  \<^verbatim>\<open>question_count + 1\<close>, and turns are numbered from 1). The wording of questions
  and reports is left open (\<open>ask\<close>, \<open>grade\<close>).
\<close>

definition service :: "(request \<Rightarrow> jsstring) \<Rightarrow> (request \<Rightarrow> report) \<Rightarrow> request \<Rightarrow> response" where
  "service ask grade req =
     (let n = int (length (previous_answers req)) + 1 in
      if TOTAL_QUESTIONS \<le> n
      then \<lparr> final_report = Some (grade req), next_question = [], question_count = n \<rparr>
      else \<lparr> final_report = None, next_question = ask req, question_count = n \<rparr>)"

text \<open>
  One turn of a session in which nothing races: the candidate's answer arrives as one
  final result, the button is pressed, the service answers the request, and the
  utterance that follows (the next question, or the closing words) ends.
\<close>

definition answerTurn ::
  "(request \<Rightarrow> jsstring) \<Rightarrow> (request \<Rightarrow> report) \<Rightarrow> jsstring \<Rightarrow> state \<Rightarrow> state" where
  "answerTurn ask grade a s =
     (let s1 = fire DoneClick (fire (Result \<lparr> resultIndex = 0, results = [(True, a)] \<rparr>) s);
          s2 = (case submitted s1 of
                  [] \<Rightarrow> s1
                | req # _ \<Rightarrow> fire (Resolves 0 (service ask grade req)) s1)
      in fire (UtteranceEnds 0) s2)"

fun session ::
  "(request \<Rightarrow> jsstring) \<Rightarrow> (request \<Rightarrow> report) \<Rightarrow> jsstring list \<Rightarrow> state \<Rightarrow> state" where
  "session ask grade [] s = s"
| "session ask grade (a # as) s = session ask grade as (answerTurn ask grade a s)"

text \<open>The mounted component once the first question has been spoken.\<close>

definition opened :: "jsstring \<Rightarrow> jsstring \<Rightarrow> bool \<Rightarrow> state" where
  "opened sid q synth = fire (UtteranceEnds 0) (init q (mounted sid q True synth))"

text \<open>
  \<open>awaiting k\<close>: the component listens for the answer of turn \<open>k + 1\<close>;
  \<open>finished\<close>: \<^verbatim>\<open>onComplete\<close> has been called once and nothing is armed.
\<close>

definition awaiting :: "nat \<Rightarrow> state \<Rightarrow> bool" where
  "awaiting k s \<longleftrightarrow>
     int k < TOTAL_QUESTIONS \<and> status s = Recording \<and> recognitionRef s \<noteq> None \<and> \<not> isSubmittingRef s
     \<and> submitted s = [] \<and> utterances s = [] \<and> completed s = []
     \<and> hasSpeechRecognition s \<and> length (previousAnswersRef s) = k
     \<and> questionNumber s = int k + 1 \<and> questionNumberRef s = int k + 1"

definition finished :: "state \<Rightarrow> bool" where
  "finished s \<longleftrightarrow>
     length (completed s) = 1 \<and> recognitionRef s = None \<and> status s = Processing
     \<and> submitted s = [] \<and> utterances s = []
     \<and> questionNumber s = TOTAL_QUESTIONS \<and> questionNumberRef s = TOTAL_QUESTIONS"

text \<open>
  At most one request is in flight, and only while the in-flight flag is set.
\<close>

definition single_flight :: "state \<Rightarrow> bool" where
  "single_flight s \<longleftrightarrow>
     length (submitted s) \<le> 1 \<and> (isSubmittingRef s \<or> submitted s = [])"

text \<open>
  A candidate who presses the button twice before saying anything, then answers and
  presses it after each of the two restarts.
\<close>

definition impatient :: "event list" where
  "impatient =
     [DoneClick, DoneClick, RestartFires, Result said_hi, DoneClick,
      RestartFires, Result said_hi, DoneClick]"

text \<open>
  The run \<open>impatient\<close> continued against the modelled service, which asks question
  \<open>n + 2\<close> after \<open>n\<close> earlier answers and grades with a report that is not empty.
  \<open>served i\<close>: the service answers the pending request \<open>i\<close> and the utterance that
  follows ends. The first request of turn 1 is answered, the candidate answers turn 2
  and is asked question 3, and only then the second request of turn 1 is answered; two
  more answers follow.
\<close>

definition askN :: "request \<Rightarrow> jsstring" where
  "askN req = js ''Q'' @ [0x32 + of_nat (length (previous_answers req))]"

definition gradeR :: "request \<Rightarrow> report" where
  "gradeR req = js ''report''"

definition served :: "nat \<Rightarrow> state \<Rightarrow> state" where
  "served i s =
     (if i < length (submitted s)
      then fire (UtteranceEnds 0) (fire (Resolves i (service askN gradeR (submitted s ! i))) s)
      else s)"

definition said_yes :: sr_event where
  "said_yes = \<lparr> resultIndex = 0, results = [(True, js ''yes'')] \<rparr>"

definition raced :: state where
  "raced = run impatient listening0"

definition asked3 :: state where
  "asked3 = served 1 (run [Result said_yes, DoneClick] (served 0 raced))"

definition late :: state where
  "late = served 0 asked3"


section \<open>Properties\<close>

lemmas cb_defs = cleanupRecording_def resetSilenceTimer_def startListeningFn_def
  doSubmit_def restartListening_def Let_def

subsection \<open>Engine numbers\<close>

lemma below_Suc: "below n x \<Longrightarrow> below (Suc n) x"
  by (cases x) simp_all

lemma ids_below_mounted: "ids_below (mounted sid q sr synth)"
  by (simp add: ids_below_def mounted_def)

lemma ids_below_startListeningFn: "ids_below s \<Longrightarrow> ids_below (startListeningFn s)"
  by (simp add: ids_below_def cb_defs below_Suc)

lemma ids_below_resume: "ids_below s \<Longrightarrow> ids_below (resume k s)"
  by (cases k) (simp_all add: resume_def ids_below_startListeningFn, simp add: ids_below_def)

lemma ids_below_doSubmit: "ids_below s \<Longrightarrow> ids_below (doSubmit s)"
  by (simp add: ids_below_def cb_defs below_Suc)

lemma ids_below_onend: "ids_below s \<Longrightarrow> ids_below (recognition_onend s)"
  by (cases "recognition s") (auto simp: ids_below_def recognition_onend_def Let_def below_Suc)

lemma ids_below_speak: "ids_below s \<Longrightarrow> ids_below (speakQuestion t k s)"
  using ids_below_resume [of s k] by (simp add: speakQuestion_def) (simp add: ids_below_def)

lemma ids_below_fire: "ids_below s \<Longrightarrow> ids_below (fire e s)"
proof (cases e)
  case DoneClick
  assume "ids_below s" then show ?thesis using DoneClick
    by (simp add: handleDoneClick_def ids_below_doSubmit)
next
  case SilenceTimerFires
  assume "ids_below s" then show ?thesis using SilenceTimerFires
    by (simp add: silenceTimeout_def ids_below_doSubmit)
       (simp add: ids_below_def resetSilenceTimer_def)
next
  case IntervalFires
  assume a: "ids_below s"
  have "ids_below (doSubmit s\<lparr>timer := 0\<rparr>)"
    using ids_below_doSubmit [OF a] by (simp add: ids_below_def)
  then show ?thesis using IntervalFires a
    by (simp add: intervalTick_def) (simp add: ids_below_def)
next
  case (Result ev)
  assume "ids_below s" then show ?thesis using Result
    by (simp add: recognition_onresult_def resetSilenceTimer_def Let_def ids_below_def
          split: prod.splits)
next
  case (EngineError x)
  assume "ids_below s" then show ?thesis using EngineError
    by (simp add: recognition_onerror_def ids_below_def)
next
  case EngineEnds
  assume "ids_below s" then show ?thesis using EngineEnds by (simp add: ids_below_onend)
next
  case RestartFires
  assume a: "ids_below s"
  show ?thesis
  proof (cases "restarts s")
    case Nil
    then show ?thesis using RestartFires a by simp
  next
    case (Cons d ds)
    have "ids_below (s\<lparr>restarts := ds, error := []\<rparr>)" using a by (simp add: ids_below_def)
    then show ?thesis using RestartFires Cons
      by (simp add: restartListening_def ids_below_startListeningFn)
  qed
next
  case (Resolves i data)
  assume a: "ids_below s"
  show ?thesis
  proof (cases "i < length (submitted s)")
    case False
    then show ?thesis using Resolves a by simp
  next
    case True
    have "ids_below (submitResolved data (submitted s ! i)
            (s\<lparr>submitted := dropAt i (submitted s)\<rparr>))"
    proof (cases "reportOf data")
      case None
      then show ?thesis unfolding submitResolved_def Let_def
        by (simp, intro ids_below_speak) (use a in \<open>simp add: ids_below_def\<close>)
    next
      case (Some r)
      then show ?thesis unfolding submitResolved_def Let_def
        by (simp, intro ids_below_speak) (use a in \<open>simp add: ids_below_def\<close>)
    qed
    then show ?thesis using Resolves True by simp
  qed
next
  case (Rejects i m)
  assume "ids_below s" then show ?thesis using Rejects
    by (simp add: submitRejected_def ids_below_def)
next
  case UtteranceStarts
  assume "ids_below s" then show ?thesis using UtteranceStarts
    by (simp add: utterance_onstart_def ids_below_def)
next
  case (UtteranceEnds i)
  assume a: "ids_below s"
  have b: "ids_below (s\<lparr>utterances := dropAt i (utterances s), isSpeaking := False\<rparr>)"
    using a by (simp add: ids_below_def)
  show ?thesis using UtteranceEnds a ids_below_resume [OF b]
    by (simp add: utterance_onend_def)
next
  case (SynthSpeaking b)
  assume "ids_below s" then show ?thesis using SynthSpeaking by (simp add: ids_below_def)
qed

lemma ids_below_run: "ids_below s \<Longrightarrow> ids_below (run es s)"
  by (induction es arbitrary: s) (simp_all add: ids_below_fire)

subsection \<open>The silence timer defers to the synthesiser\<close>

text \<open>
  Claim C2. When the silence timer fires while \<^verbatim>\<open>window.speechSynthesis.speaking\<close>
  holds, the callback only arms the silence timer again, with its full delay of
  \<open>SILENCE_TIMEOUT_MS\<close>: nothing is submitted, no restart is scheduled, and the status
  and the capture handle are what they were, so a listening component goes on listening.
\<close>

theorem silence_timer_defers_while_speaking:
  "hasSpeechSynthesis s \<Longrightarrow> synthSpeaking s \<Longrightarrow>
     silenceTimeout s = s\<lparr> silenceTimeoutRef := Some SILENCE_TIMEOUT_MS \<rparr>
     \<and> submitted (silenceTimeout s) = submitted s
     \<and> restarts (silenceTimeout s) = restarts s
     \<and> status (silenceTimeout s) = status s
     \<and> recognitionRef (silenceTimeout s) = recognitionRef s
     \<and> fire SilenceTimerFires s = (if silenceTimeoutRef s = None then s else silenceTimeout s)"
  by (simp add: silenceTimeout_def resetSilenceTimer_def)

theorem silence_timer_defers_while_speaking_witness:
  "hasSpeechSynthesis (listening0\<lparr> synthSpeaking := True \<rparr>)
   \<and> synthSpeaking (listening0\<lparr> synthSpeaking := True \<rparr>)
   \<and> status (silenceTimeout (listening0\<lparr> synthSpeaking := True \<rparr>)) = Recording
   \<and> submitted (silenceTimeout (listening0\<lparr> synthSpeaking := True \<rparr>)) = []
   \<and> silenceTimeoutRef (silenceTimeout (listening0\<lparr> synthSpeaking := True \<rparr>)) = Some 12000"
  using silence_timer_defers_while_speaking [of "listening0\<lparr> synthSpeaking := True \<rparr>"]
  by (simp add: listening0_def mounted_def cb_defs SILENCE_TIMEOUT_MS_def)

subsection \<open>Restart of a capture engine that stopped on its own\<close>

text \<open>
  Claim C4. When the engine's end event arrives while \<open>shouldListenRef\<close> is set and no
  submission is in flight, \<^verbatim>\<open>onend\<close> constructs a new engine (its number is the next
  unused one, so it is not the engine the ref held), gives it the \<^verbatim>\<open>onresult\<close>,
  \<^verbatim>\<open>onerror\<close> and \<^verbatim>\<open>onend\<close> handlers of the closure, stores it in the ref and starts
  it; nothing else changes. When \<open>shouldListenRef\<close> is cleared or a submission is in
  flight, \<^verbatim>\<open>onend\<close> changes nothing; this is the case after \<^verbatim>\<open>cleanupRecording\<close>.
\<close>

theorem unexpected_stop_restarts_capture:
  "recognition s = Some r \<Longrightarrow>
     (shouldListenRef s \<and> \<not> isSubmittingRef s \<longrightarrow>
        recognition_onend s =
          s\<lparr> nextEngine := Suc (nextEngine s),
             recognitionRef := Some \<lparr> eid = nextEngine s, continuous = True,
               interimResults = True, lang = js ''en-US'', onresult = onresult r,
               onerror = onerror r, onend = onend r, started = True \<rparr> \<rparr>
        \<and> (ids_below s \<longrightarrow> recognitionRef s \<noteq> recognitionRef (recognition_onend s)))
     \<and> (\<not> shouldListenRef s \<or> isSubmittingRef s \<longrightarrow> recognition_onend s = s)
     \<and> recognition_onend (cleanupRecording s) = cleanupRecording s"
  by (cases "recognitionRef s")
     (auto simp: recognition_onend_def Let_def cleanupRecording_def ids_below_def
           split: option.splits)

theorem unexpected_stop_restarts_capture_witness:
  "recognition listening0 = Some \<lparr> eid = 0, continuous = True, interimResults = True,
      lang = js ''en-US'', onresult = 0, onerror = 0, onend = 0, started = True \<rparr>
   \<and> shouldListenRef listening0 \<and> \<not> isSubmittingRef listening0 \<and> ids_below listening0
   \<and> recognitionRef (recognition_onend listening0) =
       Some \<lparr> eid = 1, continuous = True, interimResults = True,
         lang = js ''en-US'', onresult = 0, onerror = 0, onend = 0, started = True \<rparr>
   \<and> recognitionRef listening0 \<noteq> recognitionRef (recognition_onend listening0)
   \<and> recognition_onend (doSubmit listening0) = doSubmit listening0"
  using unexpected_stop_restarts_capture [of listening0
      "\<lparr> eid = 0, continuous = True, interimResults = True,
         lang = js ''en-US'', onresult = 0, onerror = 0, onend = 0, started = True \<rparr>"]
    unexpected_stop_restarts_capture [of "doSubmit listening0"
      "\<lparr> eid = 0, continuous = True, interimResults = True,
         lang = js ''en-US'', onresult = 0, onerror = 0, onend = 0, started = True \<rparr>"]
  by (simp add: listening0_def mounted_def cb_defs ids_below_def trim_def)

subsection \<open>Nothing was said\<close>

text \<open>
  Claim C6. When \<^verbatim>\<open>doSubmit\<close> runs (no submission in flight, as each of its callers
  checks) and the transcript is empty after trimming, no call of \<^verbatim>\<open>submitAnswer\<close> is
  made, the no-speech message is shown, a restart is scheduled after 2000 ms, and the
  question number is unchanged; the callback of that timeout starts listening again
  (status \<open>Recording\<close>, a started engine, both timers armed, the countdown at its
  total) for the same question and the same question number.
\<close>

theorem empty_transcript_is_false_start:
  "\<not> isSubmittingRef s \<Longrightarrow> trim (transcriptRef s) = [] \<Longrightarrow> hasSpeechRecognition s \<Longrightarrow>
     submitted (doSubmit s) = submitted s
     \<and> error (doSubmit s) = noSpeech
     \<and> restarts (doSubmit s) = restarts s @ [2000]
     \<and> questionNumber (doSubmit s) = questionNumber s
     \<and> questionNumberRef (doSubmit s) = questionNumberRef s
     \<and> currentQuestionRef (doSubmit s) = currentQuestionRef s
     \<and> status (restartListening (doSubmit s)) = Recording
     \<and> shouldListenRef (restartListening (doSubmit s))
     \<and> (\<exists>r. recognitionRef (restartListening (doSubmit s)) = Some r \<and> started r)
     \<and> silenceTimeoutRef (restartListening (doSubmit s)) = Some SILENCE_TIMEOUT_MS
     \<and> timerIntervalRef (restartListening (doSubmit s)) = Some 1000
     \<and> timer (restartListening (doSubmit s)) = MAX_RECORD_SECONDS
     \<and> submitted (restartListening (doSubmit s)) = submitted s
     \<and> questionNumber (restartListening (doSubmit s)) = questionNumber s
     \<and> questionNumberRef (restartListening (doSubmit s)) = questionNumberRef s
     \<and> currentQuestionRef (restartListening (doSubmit s)) = currentQuestionRef s"
  by (simp add: cb_defs)

theorem empty_transcript_is_false_start_witness:
  "\<not> isSubmittingRef listening0 \<and> trim (transcriptRef listening0) = []
   \<and> hasSpeechRecognition listening0
   \<and> submitted (doSubmit listening0) = []
   \<and> restarts (doSubmit listening0) = [2000]
   \<and> questionNumber (restartListening (doSubmit listening0)) = 1
   \<and> status (restartListening (doSubmit listening0)) = Recording"
  using empty_transcript_is_false_start [of listening0]
  by (simp add: listening0_def mounted_def cb_defs trim_def)

subsection \<open>A failed submission\<close>

text \<open>
  Claim C8. When the call of \<^verbatim>\<open>submitAnswer\<close> rejects, the \<^verbatim>\<open>catch\<close> sets a non-empty
  error message and the status \<open>Idle\<close>; \<^verbatim>\<open>onComplete\<close> is not called; the question
  number, the current question and both histories are unchanged; the in-flight flag is
  cleared. A later \<^verbatim>\<open>doSubmit\<close> on a non-blank transcript then issues exactly one new
  call, for the same question and answer, and a second \<^verbatim>\<open>doSubmit\<close> after it issues
  none.
\<close>

theorem submit_failure:
  "i < length (submitted s) \<Longrightarrow>
     error (fire (Rejects i m) s) \<noteq> []
     \<and> status (fire (Rejects i m) s) = Idle
     \<and> completed (fire (Rejects i m) s) = completed s
     \<and> questionNumber (fire (Rejects i m) s) = questionNumber s
     \<and> questionNumberRef (fire (Rejects i m) s) = questionNumberRef s
     \<and> currentQuestion (fire (Rejects i m) s) = currentQuestion s
     \<and> currentQuestionRef (fire (Rejects i m) s) = currentQuestionRef s
     \<and> previousQuestionsRef (fire (Rejects i m) s) = previousQuestionsRef s
     \<and> previousAnswersRef (fire (Rejects i m) s) = previousAnswersRef s
     \<and> \<not> isSubmittingRef (fire (Rejects i m) s)
     \<and> submitted (fire (Rejects i m) s) = dropAt i (submitted s)
     \<and> (trim (transcriptRef s) \<noteq> [] \<longrightarrow>
          submitted (doSubmit (fire (Rejects i m) s)) =
            dropAt i (submitted s) @
              [\<lparr> session_id = sessionId s, current_question = currentQuestionRef s,
                 current_answer = trim (transcriptRef s),
                 previous_questions = previousQuestionsRef s,
                 previous_answers = previousAnswersRef s \<rparr>]
          \<and> doSubmit (doSubmit (fire (Rejects i m) s)) = doSubmit (fire (Rejects i m) s))"
  by (simp add: submitRejected_def cb_defs js_def split: option.splits)

theorem submit_failure_witness:
  "0 < length (submitted answered0) \<and> trim (transcriptRef answered0) \<noteq> []
   \<and> error (fire (Rejects 0 None) answered0) = js ''Something went wrong. Please try again.''
   \<and> status (fire (Rejects 0 None) answered0) = Idle
   \<and> questionNumber (fire (Rejects 0 None) answered0) = 1
   \<and> \<not> isSubmittingRef (fire (Rejects 0 None) answered0)
   \<and> submitted (fire (Rejects 0 None) answered0) = []
   \<and> length (submitted (doSubmit (fire (Rejects 0 None) answered0))) = 1
   \<and> length (submitted (doSubmit (doSubmit (fire (Rejects 0 None) answered0)))) = 1"
  using submit_failure [of 0 answered0 None]
  by (simp add: answered0_def said_hi_def listening0_def mounted_def cb_defs
        recognition_onresult_def handleDoneClick_def submitRejected_def trim_def
        isWhiteSpace_def js_def dropAt_def)

subsection \<open>The frame of a false start\<close>

text \<open>
  Claim C10. When \<^verbatim>\<open>doSubmit\<close> runs on a transcript that is empty after trimming, the
  in-flight flag is false after each of its steps (the message, the cleanup, the
  scheduling of the restart), and the invocation changes only the error message and
  what belongs to the recording: the capture handle, the two timer refs, the
  \<open>shouldListenRef\<close> and \<open>isRecording\<close> flags that \<^verbatim>\<open>cleanupRecording\<close> resets, and the
  pending restart timeout. Every other field keeps its value.
\<close>

theorem false_start_frame:
  "trim (transcriptRef s) = [] \<Longrightarrow> \<not> isSubmittingRef s \<Longrightarrow>
     \<not> isSubmittingRef (s\<lparr> error := noSpeech \<rparr>)
     \<and> \<not> isSubmittingRef (cleanupRecording (s\<lparr> error := noSpeech \<rparr>))
     \<and> \<not> isSubmittingRef (doSubmit s)
     \<and> doSubmit s =
         s\<lparr> error := noSpeech, shouldListenRef := False, recognitionRef := None,
            timerIntervalRef := None, silenceTimeoutRef := None, isRecording := False,
            restarts := restarts s @ [2000] \<rparr>"
  by (simp add: cb_defs)

theorem false_start_frame_witness:
  "trim (transcriptRef blank0) = [] \<and> \<not> isSubmittingRef blank0
   \<and> transcriptRef blank0 = js '' ''
   \<and> \<not> isSubmittingRef (doSubmit blank0)
   \<and> transcriptRef (doSubmit blank0) = js '' ''
   \<and> status (doSubmit blank0) = Recording
   \<and> timer (doSubmit blank0) = 120
   \<and> questionNumberRef (doSubmit blank0) = 1
   \<and> submitted (doSubmit blank0) = []"
  using false_start_frame [of blank0]
  by (simp add: blank0_def listening0_def mounted_def cb_defs recognition_onresult_def
        trim_def isWhiteSpace_def js_def MAX_RECORD_SECONDS_def)

subsection \<open>The running transcript\<close>

lemma collect_eq:
  "collect rs (F, I) =
     (F @ concat (map (\<lambda>t. t @ js '' '') (map snd (filter fst rs))),
      I @ concat (map snd (filter (\<lambda>r. \<not> fst r) rs)))"
  by (induction rs arbitrary: F I) auto

lemma onresult_fields:
  "finalTranscript (recognition_onresult ev s) =
     finalTranscript s @ concat (map (\<lambda>t. t @ js '' '') (finals ev))"
  "transcriptRef (recognition_onresult ev s) =
     finalTranscript (recognition_onresult ev s) @ concat (interims ev)"
  "transcript (recognition_onresult ev s) = transcriptRef (recognition_onresult ev s)"
  "recognitionRef (recognition_onresult ev s) = recognitionRef s"
  by (simp_all add: recognition_onresult_def collect_eq finals_def interims_def
        resetSilenceTimer_def Let_def)

lemma run_results:
  "recognitionRef s \<noteq> None \<Longrightarrow>
     finalTranscript (run (map Result evs) s) =
       finalTranscript s @ concat (map (\<lambda>t. t @ js '' '') (concat (map finals evs)))
     \<and> (evs \<noteq> [] \<longrightarrow>
          transcriptRef (run (map Result evs) s) =
            finalTranscript (run (map Result evs) s) @ concat (interims (last evs))
          \<and> transcript (run (map Result evs) s) = transcriptRef (run (map Result evs) s))"
proof (induction evs arbitrary: s)
  case Nil
  then show ?case by simp
next
  case (Cons ev evs)
  let ?t = "recognition_onresult ev s"
  have t: "recognitionRef ?t \<noteq> None" using Cons.prems by (simp add: onresult_fields)
  have step: "run (map Result (ev # evs)) s = run (map Result evs) ?t"
    using Cons.prems by simp
  show ?case
  proof (cases "evs = []")
    case True
    then show ?thesis using Cons.prems by (simp add: onresult_fields)
  next
    case False
    then show ?thesis using Cons.IH [OF t] step by (simp add: onresult_fields)
  qed
qed

text \<open>
  Claim C5. For every sequence of \<^verbatim>\<open>onresult\<close> events of a listening phase, the
  transcript (ref and React state) after the sequence is the concatenation of all
  finalised fragments delivered so far, in arrival order and each followed by one space,
  followed by the interim fragments of the last event only. As this holds for every
  sequence, it holds after each event of a sequence.
\<close>

theorem transcript_is_finals_then_latest_interim:
  "hasSpeechRecognition s \<Longrightarrow>
     transcriptRef (run (map Result evs) (startListeningFn s)) = running_transcript evs
     \<and> transcript (run (map Result evs) (startListeningFn s)) = running_transcript evs"
proof -
  assume sr: "hasSpeechRecognition s"
  let ?s = "startListeningFn s"
  have a: "recognitionRef ?s \<noteq> None" "finalTranscript ?s = []" "transcriptRef ?s = []"
    "transcript ?s = []"
    using sr by (simp_all add: startListeningFn_def cleanupRecording_def resetSilenceTimer_def Let_def)
  show ?thesis
  proof (cases "evs = []")
    case True
    then show ?thesis using a by (simp add: running_transcript_def)
  next
    case False
    then show ?thesis using run_results [OF a(1), of evs] a(2)
      by (simp add: running_transcript_def)
  qed
qed

theorem transcript_is_finals_then_latest_interim_witness:
  "hasSpeechRecognition (mounted [] [] True True)
   \<and> transcriptRef (run (map Result heard) (startListeningFn (mounted [] [] True True))) =
       js ''I think so''
   \<and> transcriptRef (run (map Result (take 2 heard)) (startListeningFn (mounted [] [] True True))) =
       js ''I think''"
  using transcript_is_finals_then_latest_interim [of "mounted [] [] True True" heard]
    transcript_is_finals_then_latest_interim [of "mounted [] [] True True" "take 2 heard"]
  by (simp add: running_transcript_def finals_def interims_def heard_def mounted_def js_def)

subsection \<open>The ceiling timer\<close>

lemma ended_doSubmit: "\<not> isSubmittingRef s \<Longrightarrow> ended (doSubmit s)"
  by (simp add: ended_def cb_defs)

lemma ended_doSubmit': "ended s \<Longrightarrow> ended (doSubmit s)"
  by (simp add: ended_def cb_defs)

lemma ended_stays: "within_phase e \<Longrightarrow> ended s \<Longrightarrow> ended (fire e s)"
proof (cases e)
  case DoneClick
  assume "ended s" then show ?thesis using DoneClick ended_doSubmit' [of s]
    by (simp add: handleDoneClick_def)
next
  case EngineEnds
  assume "ended s" then show ?thesis using EngineEnds
    by (simp add: ended_def recognition_onend_def split: option.splits)
next
  case (EngineError x)
  assume "ended s" then show ?thesis using EngineError
    by (simp add: ended_def recognition_onerror_def)
qed (simp_all add: ended_def utterance_onstart_def)

lemma counting_step:
  assumes "within_phase e" "counting s"
  shows "ended (fire e s) \<or>
         (counting (fire e s) \<and>
          timer (fire e s) = (if e = IntervalFires then timer s - 1 else timer s))"
proof (cases e)
  case DoneClick
  then show ?thesis using assms ended_doSubmit [of s]
    by (auto simp: handleDoneClick_def counting_def)
next
  case SilenceTimerFires
  then show ?thesis using assms ended_doSubmit [of s]
    by (auto simp: silenceTimeout_def resetSilenceTimer_def counting_def)
next
  case IntervalFires
  have "ended (doSubmit s\<lparr>timer := 0\<rparr>)" using assms ended_doSubmit [of s]
    by (simp add: ended_def counting_def)
  then show ?thesis using assms IntervalFires
    by (auto simp: intervalTick_def counting_def)
next
  case (Result ev)
  then show ?thesis using assms
    by (auto simp: recognition_onresult_def resetSilenceTimer_def Let_def counting_def
          split: prod.splits)
next
  case (EngineError x)
  then show ?thesis using assms by (auto simp: recognition_onerror_def counting_def)
next
  case EngineEnds
  then show ?thesis using assms
    by (auto simp: recognition_onend_def Let_def counting_def split: option.splits)
next
  case UtteranceStarts
  then show ?thesis using assms by (auto simp: utterance_onstart_def counting_def)
next
  case (SynthSpeaking b)
  then show ?thesis using assms by (auto simp: counting_def)
qed (use assms in simp_all)

lemma ended_run: "list_all within_phase evs \<Longrightarrow> ended s \<Longrightarrow> ended (run evs s)"
  by (induction evs arbitrary: s) (simp_all add: ended_stays)

lemma ceiling_run:
  "list_all within_phase evs \<Longrightarrow> counting s \<Longrightarrow>
     timer s \<le> int (count_list evs IntervalFires) \<Longrightarrow> ended (run evs s)"
proof (induction evs arbitrary: s)
  case Nil
  then show ?case by (simp add: counting_def)
next
  case (Cons e es)
  from Cons.prems have wp: "within_phase e" and rest: "list_all within_phase es" by simp_all
  from counting_step [OF wp Cons.prems(2)] show ?case
  proof
    assume "ended (fire e s)"
    then show ?thesis using ended_run [OF rest] by simp
  next
    assume a: "counting (fire e s) \<and>
          timer (fire e s) = (if e = IntervalFires then timer s - 1 else timer s)"
    then have "timer (fire e s) \<le> int (count_list es IntervalFires)"
      using Cons.prems(3) by (auto split: if_splits)
    then show ?thesis using Cons.IH [OF rest] a by simp
  qed
qed

text \<open>
  Claim C3. The interval, armed with a period of 1000 ms and the countdown at
  \<open>MAX_RECORD_SECONDS\<close>, decrements the countdown by one while it is above 1;
  at 1 (or below) it sets the countdown to 0 and runs \<^verbatim>\<open>doSubmit\<close>, whatever the
  synthesiser reports: on a non-blank transcript one call is issued. So, however the
  events of a listening phase interleave (silence-timer firings that defer, results,
  engine stops, clicks), once the interval has fired as often as the countdown's value,
  the listening phase is over; a phase begun by \<^verbatim>\<open>startListeningFn\<close> is over after
  \<open>MAX_RECORD_SECONDS\<close> firings.
\<close>

theorem ceiling_timer_ends_listening:
  "(timer s \<le> 1 \<longrightarrow> intervalTick s = (doSubmit s)\<lparr> timer := 0 \<rparr>)
   \<and> (1 < timer s \<longrightarrow> intervalTick s = s\<lparr> timer := timer s - 1 \<rparr>)
   \<and> (timer s \<le> 1 \<and> \<not> isSubmittingRef s \<and> trim (transcriptRef s) \<noteq> [] \<longrightarrow>
        length (submitted (intervalTick s)) = Suc (length (submitted s)))
   \<and> (hasSpeechRecognition s \<longrightarrow>
        timer (startListeningFn s) = MAX_RECORD_SECONDS
        \<and> timerIntervalRef (startListeningFn s) = Some 1000)
   \<and> (counting s \<and> list_all within_phase evs
        \<and> timer s \<le> int (count_list evs IntervalFires) \<longrightarrow> ended (run evs s))
   \<and> (hasSpeechRecognition s \<and> list_all within_phase evs
        \<and> MAX_RECORD_SECONDS \<le> int (count_list evs IntervalFires) \<longrightarrow>
        ended (run evs (startListeningFn s)))"
proof -
  have a: "hasSpeechRecognition s \<Longrightarrow> counting (startListeningFn s)
       \<and> timer (startListeningFn s) = MAX_RECORD_SECONDS"
    by (simp add: counting_def cb_defs MAX_RECORD_SECONDS_def)
  have b: "hasSpeechRecognition s \<Longrightarrow> timerIntervalRef (startListeningFn s) = Some 1000"
    by (simp add: cb_defs)
  show ?thesis using ceiling_run [of evs s] ceiling_run [of evs "startListeningFn s"] a b
    by (auto simp: intervalTick_def doSubmit_def cleanupRecording_def Let_def)
qed

theorem ceiling_timer_ends_listening_witness:
  "counting late0 \<and> list_all within_phase lastSeconds
   \<and> timer late0 \<le> int (count_list lastSeconds IntervalFires)
   \<and> synthSpeaking (run lastSeconds late0)
   \<and> ended (run lastSeconds late0)
   \<and> length (submitted (run lastSeconds late0)) = 1
   \<and> timer (run (take 2 lastSeconds) late0) = 1
   \<and> intervalTick (run (take 4 lastSeconds) late0) =
       (doSubmit (run (take 4 lastSeconds) late0))\<lparr> timer := 0 \<rparr>"
  using ceiling_timer_ends_listening [of late0 lastSeconds]
    ceiling_timer_ends_listening [of "run (take 4 lastSeconds) late0" lastSeconds]
  by (simp add: late0_def lastSeconds_def said_hi_def listening0_def mounted_def cb_defs
        counting_def ended_def silenceTimeout_def intervalTick_def recognition_onresult_def
        trim_def isWhiteSpace_def js_def MAX_RECORD_SECONDS_def)

subsection \<open>What a submission carries\<close>

lemma submitResolved_histories:
  "reportOf data = None \<Longrightarrow>
     previousQuestionsRef (submitResolved data req t) =
       previous_questions req @ [current_question req]
     \<and> previousAnswersRef (submitResolved data req t) =
       previous_answers req @ [current_answer req]"
  by (simp add: submitResolved_def speakQuestion_def resume_def cb_defs)

text \<open>
  A call of \<^verbatim>\<open>submitAnswer\<close> is issued in the callback that stops the capture, and
  carries the question and the histories the refs hold at that instant and the
  transcript of that instant, trimmed. On a next-question response the refs of the
  histories are set to the copies taken at that instant with the pair appended,
  whatever the state \<open>t\<close> holds by then.
\<close>

lemma request_carries_values_of_the_instant:
  "\<not> isSubmittingRef s \<Longrightarrow> trim (transcriptRef s) \<noteq> [] \<Longrightarrow>
     submitted (doSubmit s) =
       submitted s @
         [\<lparr> session_id = sessionId s, current_question = currentQuestionRef s,
            current_answer = trim (transcriptRef s),
            previous_questions = previousQuestionsRef s,
            previous_answers = previousAnswersRef s \<rparr>]
     \<and> recognitionRef (doSubmit s) = None
     \<and> (reportOf data = None \<longrightarrow>
          previousQuestionsRef (submitResolved data (last (submitted (doSubmit s))) t) =
            previousQuestionsRef s @ [currentQuestionRef s]
          \<and> previousAnswersRef (submitResolved data (last (submitted (doSubmit s))) t) =
            previousAnswersRef s @ [trim (transcriptRef s)])"
  using submitResolved_histories [of data "last (submitted (doSubmit s))" t]
  by (simp add: cb_defs)

subsection \<open>The number of turns\<close>

lemma trim_Nil_iff: "trim s = [] \<longleftrightarrow> (\<forall>c\<in>set s. isWhiteSpace c)"
proof
  assume a: "trim s = []"
  show "\<forall>c\<in>set s. isWhiteSpace c"
  proof (cases "dropWhile isWhiteSpace s")
    case Nil
    then show ?thesis by (simp add: dropWhile_eq_Nil_conv)
  next
    case (Cons x xs)
    then have nx: "\<not> isWhiteSpace x" using hd_dropWhile [of isWhiteSpace s] by auto
    from a have "\<forall>c\<in>set (rev (dropWhile isWhiteSpace s)). isWhiteSpace c"
      by (simp add: trim_def dropWhile_eq_Nil_conv)
    then show ?thesis using Cons nx by simp
  qed
next
  assume "\<forall>c\<in>set s. isWhiteSpace c"
  then have e: "dropWhile isWhiteSpace s = []" by (simp add: dropWhile_eq_Nil_conv)
  show "trim s = []" by (simp only: trim_def e rev.simps dropWhile.simps)
qed

lemma trim_append_nonblank: "trim a \<noteq> [] \<Longrightarrow> trim (f @ a @ t) \<noteq> []"
  by (auto simp: trim_Nil_iff)

lemma opened_awaiting: "awaiting 0 (opened sid q synth)"
  by (simp add: opened_def init_def mounted_def speakQuestion_def resume_def
        utterance_onend_def cb_defs awaiting_def dropAt_def TOTAL_QUESTIONS_def)

lemma finished_turn: "finished s \<Longrightarrow> answerTurn ask grade a s = s"
  by (simp add: finished_def answerTurn_def Let_def utterance_onend_def)

lemma awaiting_turn:
  assumes "awaiting k s" "trim a \<noteq> []" "\<And>r. grade r \<noteq> []"
  shows "(int k + 1 < TOTAL_QUESTIONS \<longrightarrow> awaiting (Suc k) (answerTurn ask grade a s))
       \<and> (TOTAL_QUESTIONS \<le> int k + 1 \<longrightarrow> finished (answerTurn ask grade a s))"
proof -
  have nb: "trim (finalTranscript s @ a @ js '' '') \<noteq> []"
    using assms(2) by (rule trim_append_nonblank)
  show ?thesis
    using assms(1) nb assms(3)
    by (auto simp: awaiting_def finished_def answerTurn_def service_def Let_def reportOf_def
          recognition_onresult_def handleDoneClick_def submitResolved_def speakQuestion_def
          resume_def utterance_onend_def cb_defs dropAt_def TOTAL_QUESTIONS_def)
qed


lemma session_run:
  "(\<And>r. grade r \<noteq> []) \<Longrightarrow> awaiting k s \<Longrightarrow> \<forall>a\<in>set as. trim a \<noteq> [] \<Longrightarrow>
     (int (k + length as) < TOTAL_QUESTIONS \<longrightarrow> awaiting (k + length as) (session ask grade as s))
     \<and> (TOTAL_QUESTIONS \<le> int (k + length as) \<longrightarrow> finished (session ask grade as s))"
proof (induction as arbitrary: k s)
  case Nil
  then show ?case by (simp add: awaiting_def)
next
  case (Cons a as)
  from Cons.prems have nb: "trim a \<noteq> []" and rest: "\<forall>a\<in>set as. trim a \<noteq> []" by simp_all
  note step = awaiting_turn [OF Cons.prems(2) nb Cons.prems(1), of ask]
  show ?case
  proof (cases "int k + 1 < TOTAL_QUESTIONS")
    case True
    then have "awaiting (Suc k) (answerTurn ask grade a s)" using step by simp
    from Cons.IH [OF Cons.prems(1) this rest] show ?thesis by simp
  next
    case False
    then have f: "finished (answerTurn ask grade a s)" using step by simp
    have "session ask grade as (answerTurn ask grade a s) = answerTurn ask grade a s"
      using f by (induction as) (simp_all add: finished_turn)
    then show ?thesis using f False by simp
  qed
qed

text \<open>
  Against the modelled service, with reports that are not empty: in a session of
  non-blank answers whose turns do not overlap, the question number starts at 1, is one
  more than the number of answers given while fewer than \<open>TOTAL_QUESTIONS\<close> were
  given, and never exceeds \<open>TOTAL_QUESTIONS\<close>; the component is listening until the
  answer number \<open>TOTAL_QUESTIONS\<close>, on which \<^verbatim>\<open>onComplete\<close> is called once and
  listening is not armed again.
\<close>

lemma race_free_session_ends_after_total_turns:
  "(\<And>r. grade r \<noteq> []) \<Longrightarrow> \<forall>a\<in>set as. trim a \<noteq> [] \<Longrightarrow>
     1 \<le> questionNumber (session ask grade as (opened sid q synth))
     \<and> questionNumber (session ask grade as (opened sid q synth)) \<le> TOTAL_QUESTIONS
     \<and> questionNumberRef (session ask grade as (opened sid q synth)) =
         questionNumber (session ask grade as (opened sid q synth))
     \<and> (int (length as) < TOTAL_QUESTIONS \<longrightarrow>
          questionNumber (session ask grade as (opened sid q synth)) = int (length as) + 1
          \<and> completed (session ask grade as (opened sid q synth)) = []
          \<and> status (session ask grade as (opened sid q synth)) = Recording)
     \<and> (TOTAL_QUESTIONS \<le> int (length as) \<longrightarrow>
          questionNumber (session ask grade as (opened sid q synth)) = TOTAL_QUESTIONS
          \<and> length (completed (session ask grade as (opened sid q synth))) = 1
          \<and> recognitionRef (session ask grade as (opened sid q synth)) = None
          \<and> status (session ask grade as (opened sid q synth)) = Processing)"
proof -
  assume g: "\<And>r. grade r \<noteq> []" and nb: "\<forall>a\<in>set as. trim a \<noteq> []"
  show ?thesis
    using session_run [of grade 0 "opened sid q synth" as ask, OF g opened_awaiting nb]
    by (cases "int (length as) < TOTAL_QUESTIONS")
       (auto simp: awaiting_def finished_def TOTAL_QUESTIONS_def)
qed

subsection \<open>The in-flight flag\<close>

lemma doSubmit_noop_while_submitting: "isSubmittingRef s \<Longrightarrow> doSubmit s = s"
  by (simp add: doSubmit_def)

lemma doSubmit_sets_flag:
  "\<not> isSubmittingRef s \<Longrightarrow> trim (transcriptRef s) \<noteq> [] \<Longrightarrow>
     isSubmittingRef (doSubmit s) \<and> length (submitted (doSubmit s)) = Suc (length (submitted s))"
  by (simp add: cb_defs)

lemma startListeningFn_clears_flag:
  "hasSpeechRecognition s \<Longrightarrow>
     \<not> isSubmittingRef (startListeningFn s) \<and> submitted (startListeningFn s) = submitted s"
  by (simp add: cb_defs)

lemma single_flight_doSubmit: "single_flight s \<Longrightarrow> single_flight (doSubmit s)"
  by (auto simp: single_flight_def cb_defs)

lemma single_flight_fire:
  "within_phase e \<Longrightarrow> single_flight s \<Longrightarrow> single_flight (fire e s)"
proof (cases e)
  case DoneClick
  assume "single_flight s" then show ?thesis using DoneClick single_flight_doSubmit [of s]
    by (simp add: handleDoneClick_def)
next
  case SilenceTimerFires
  assume "single_flight s" then show ?thesis using SilenceTimerFires single_flight_doSubmit [of s]
    by (auto simp: silenceTimeout_def single_flight_def resetSilenceTimer_def)
next
  case IntervalFires
  assume a: "single_flight s"
  have "single_flight (doSubmit s\<lparr>timer := 0\<rparr>)"
    using single_flight_doSubmit [OF a] by (simp add: single_flight_def)
  then show ?thesis using IntervalFires a
    by (auto simp: intervalTick_def single_flight_def)
next
  case (Result ev)
  assume "single_flight s" then show ?thesis using Result
    by (auto simp: recognition_onresult_def resetSilenceTimer_def Let_def single_flight_def
          split: prod.splits)
next
  case (EngineError x)
  assume "single_flight s" then show ?thesis using EngineError
    by (auto simp: recognition_onerror_def single_flight_def)
next
  case EngineEnds
  assume "single_flight s" then show ?thesis using EngineEnds
    by (auto simp: recognition_onend_def Let_def single_flight_def split: option.splits)
next
  case UtteranceStarts
  assume "single_flight s" then show ?thesis using UtteranceStarts
    by (simp add: utterance_onstart_def single_flight_def)
next
  case (SynthSpeaking b)
  assume "single_flight s" then show ?thesis using SynthSpeaking
    by (simp add: single_flight_def)
qed simp_all

lemma single_flight_within_phase:
  "list_all within_phase evs \<Longrightarrow> single_flight s \<Longrightarrow>
     single_flight (run evs s) \<and> length (submitted (run evs s)) \<le> 1"
proof (induction evs arbitrary: s)
  case Nil
  then show ?case by (simp add: single_flight_def)
next
  case (Cons e es)
  then show ?case using single_flight_fire [of e s] by simp
qed

lemma restart_breaks_single_flight:
  "hasSpeechRecognition s \<Longrightarrow> submitted s \<noteq> [] \<Longrightarrow> \<not> single_flight (restartListening s)"
  by (auto simp: single_flight_def cb_defs)

text \<open>
  Claim C1 fails on the code. The guard of \<^verbatim>\<open>doSubmit\<close> does hold the flag's test and
  its setting in one callback, a call with the flag set changes nothing, and no
  interleaving of the events within a listening phase puts a second request in flight
  (the lemmas above). But \<^verbatim>\<open>startListeningFn\<close> clears the flag, and the restart that a false start
  schedules runs it whatever has happened since. In the run \<open>impatient\<close> the second
  restart clears the flag while the first call of \<^verbatim>\<open>submitAnswer\<close> is outstanding.
  The button is rendered at each click (the status is \<open>Recording\<close>, also after a false
  start); the two clicks on the empty transcript leave two restarts pending; the third
  click issues a request and sets the flag; the second restart clears the flag with that
  request in flight; after the last click two requests for the same question of turn 1
  are in flight.
\<close>

theorem two_submissions_in_flight:
  "status listening0 = Recording
   \<and> status (run (take 1 impatient) listening0) = Recording
   \<and> restarts (run (take 2 impatient) listening0) = [2000, 2000]
   \<and> submitted (run (take 2 impatient) listening0) = []
   \<and> status (run (take 4 impatient) listening0) = Recording
   \<and> isSubmittingRef (run (take 5 impatient) listening0)
   \<and> length (submitted (run (take 5 impatient) listening0)) = 1
   \<and> restarts (run (take 5 impatient) listening0) = [2000]
   \<and> \<not> isSubmittingRef (run (take 6 impatient) listening0)
   \<and> length (submitted (run (take 6 impatient) listening0)) = 1
   \<and> status (run (take 7 impatient) listening0) = Recording
   \<and> \<not> isSubmittingRef (run (take 7 impatient) listening0)
   \<and> length (submitted (run (take 7 impatient) listening0)) = 1
   \<and> submitted (run impatient listening0) =
       [\<lparr> session_id = js ''s1'', current_question = js ''Q1'', current_answer = js ''hi'',
          previous_questions = [], previous_answers = [] \<rparr>,
        \<lparr> session_id = js ''s1'', current_question = js ''Q1'', current_answer = js ''hi'',
          previous_questions = [], previous_answers = [] \<rparr>]
   \<and> questionNumberRef (run impatient listening0) = 1"
  by (simp add: impatient_def said_hi_def listening0_def mounted_def cb_defs
        recognition_onresult_def handleDoneClick_def trim_def isWhiteSpace_def js_def)

subsection \<open>Replies to two requests of one turn\<close>

lemmas run_defs = impatient_def said_hi_def said_yes_def listening0_def mounted_def cb_defs
  recognition_onresult_def handleDoneClick_def trim_def isWhiteSpace_def js_def
  served_def service_def askN_def gradeR_def reportOf_def submitResolved_def
  speakQuestion_def resume_def utterance_onend_def dropAt_def TOTAL_QUESTIONS_def

lemma raced_state:
  "submitted raced =
     [\<lparr> session_id = js ''s1'', current_question = js ''Q1'', current_answer = js ''hi'',
        previous_questions = [], previous_answers = [] \<rparr>,
      \<lparr> session_id = js ''s1'', current_question = js ''Q1'', current_answer = js ''hi'',
        previous_questions = [], previous_answers = [] \<rparr>]"
  by (simp add: raced_def run_defs)

text \<open>
  Claim C7 fails on the code. The request does carry the question and the trimmed
  transcript of the instant the capture was stopped (the lemma
  \<open>request_carries_values_of_the_instant\<close>). But on a next-question response
  \<^verbatim>\<open>doSubmit\<close> does not append the pair to the histories: it overwrites the refs
  with the copies it took when the request was issued. With the two requests of turn 1
  in flight (the run \<open>impatient\<close>), the reply to the second one arrives after turn 2 was
  answered: the histories hold the pairs of turns 1 and 2 before it, and only the pair
  of turn 1 after it.
\<close>

theorem late_reply_overwrites_histories:
  "length (submitted raced) = 2
   \<and> previousQuestionsRef asked3 = [js ''Q1'', js ''Q2'']
   \<and> previousAnswersRef asked3 = [js ''hi'', js ''yes'']
   \<and> currentQuestionRef asked3 = js ''Q3''
   \<and> submitted asked3 =
       [\<lparr> session_id = js ''s1'', current_question = js ''Q1'', current_answer = js ''hi'',
          previous_questions = [], previous_answers = [] \<rparr>]
   \<and> previousQuestionsRef late = [js ''Q1'']
   \<and> previousAnswersRef late = [js ''hi'']
   \<and> currentQuestionRef late = js ''Q2''"
  by (simp add: late_def asked3_def raced_def run_defs)


end
